theory Spec2Isabelle
  imports Main "HOL-Library.Word"
begin

section \<open>The style parser of umbraco-rich-text (src/rich-text/parse-style.ts)\<close>

subsection \<open>JavaScript strings\<close>

text \<open>
  A JavaScript string is a sequence of UTF-16 code units. Every character the parser
  inspects (white space, \<open>;\<close>, \<open>:\<close>, \<open>-\<close>, \<open>a\<close> to \<open>z\<close>) is a single code
  unit, so a string is a list of 16-bit words. \<open>js\<close> writes an ASCII literal.
\<close>

type_synonym code_unit = "16 word"
type_synonym js_string = "code_unit list"

definition js :: "string \<Rightarrow> js_string" where
  "js s = map of_char s"

definition SEMICOLON :: code_unit where "SEMICOLON = 0x3B"
definition COLON :: code_unit where "COLON = 0x3A"
definition HYPHEN :: code_unit where "HYPHEN = 0x2D"

text \<open>
  \<open>String.prototype.trim\<close> removes leading and trailing WhiteSpace and LineTerminator
  code points (ECMAScript, TrimString): TAB, LF, VT, FF, CR, SPACE, NBSP, the other
  code points of category Zs (U+1680, U+2000 to U+200A, U+202F, U+205F, U+3000),
  LS U+2028, PS U+2029 and the byte order mark U+FEFF. All lie in the basic plane.
\<close>

definition isWhiteSpace :: "code_unit \<Rightarrow> bool" where
  "isWhiteSpace c =
     ((0x9 \<le> c \<and> c \<le> 0xD) \<or> c = 0x20 \<or> c = 0xA0 \<or> c = 0x1680 \<or>
      (0x2000 \<le> c \<and> c \<le> 0x200A) \<or> c = 0x2028 \<or> c = 0x2029 \<or> c = 0x202F \<or>
      c = 0x205F \<or> c = 0x3000 \<or> c = 0xFEFF)"

definition trim :: "js_string \<Rightarrow> js_string" where
  "trim s = rev (dropWhile isWhiteSpace (rev (dropWhile isWhiteSpace s)))"

text \<open>
  \<open>s.split(sep)\<close> for a separator of one code unit: the pieces between the
  occurrences of the separator, in order; a string without the separator (the empty
  string too) gives the one-element array holding the string itself.
\<close>

fun split :: "code_unit \<Rightarrow> js_string \<Rightarrow> js_string list" where
  "split sep [] = [[]]"
| "split sep (c # cs) =
     (if c = sep then [] # split sep cs
      else (case split sep cs of
              [] \<Rightarrow> [[c]]
            | piece # pieces \<Rightarrow> (c # piece) # pieces))"

text \<open>Reading an array or a string at an index gives \<open>undefined\<close> (None) out of range.\<close>

fun at_index :: "'a list \<Rightarrow> nat \<Rightarrow> 'a option" where
  "at_index [] i = None"
| "at_index (x # xs) 0 = Some x"
| "at_index (x # xs) (Suc i) = at_index xs i"

definition startsWith :: "js_string \<Rightarrow> js_string \<Rightarrow> bool" where
  "startsWith s prefix = (take (length prefix) s = prefix)"

definition is_a_to_z :: "code_unit \<Rightarrow> bool" where
  "is_a_to_z c = (0x61 \<le> c \<and> c \<le> 0x7A)"

text \<open>
  \<open>toUpperCase\<close> on the letters \<open>a\<close> to \<open>z\<close>. The full Unicode case mapping is not
  modelled: the parser applies \<open>toUpperCase\<close> only to the one letter that the class
  \<open>[a-z]\<close> has captured.
\<close>

definition toUpperCase :: "js_string \<Rightarrow> js_string" where
  "toUpperCase s = map (\<lambda>c. if is_a_to_z c then c - 0x20 else c) s"

subsection \<open>toCamelCase\<close>

text \<open>
  \<^verbatim>\<open>value.replace(/-([a-z])/g, (g) => g[1]?.toUpperCase() ?? "")\<close>:
  the global replace scans from the left; where a hyphen is followed by a letter
  \<open>a\<close> to \<open>z\<close> the two code units are the match \<open>g\<close>, replaced by the callback's
  result, and the scan goes on behind the match; any other code unit is copied.
\<close>

fun replace_hyphen_letter :: "(js_string \<Rightarrow> js_string) \<Rightarrow> js_string \<Rightarrow> js_string" where
  "replace_hyphen_letter f (c # d # cs) =
     (if c = HYPHEN \<and> is_a_to_z d then f [c, d] @ replace_hyphen_letter f cs
      else c # replace_hyphen_letter f (d # cs))"
| "replace_hyphen_letter f cs = cs"

definition toCamelCase :: "js_string \<Rightarrow> js_string" where
  "toCamelCase v =
     replace_hyphen_letter
       (\<lambda>g. case at_index g 1 of None \<Rightarrow> [] | Some ch \<Rightarrow> toUpperCase [ch]) v"

subsection \<open>The parsed object\<close>

text \<open>
  \<open>styleProps\<close> is an ordinary object used as a record from names to strings; the
  model keeps its own properties as a map. An assignment \<open>styleProps[property] = v\<close>
  creates or overwrites the own property, with one exception of the language: the
  name \<open>__proto__\<close> is an accessor inherited from \<open>Object.prototype\<close>, whose setter
  returns without any effect when the assigned value is neither an object nor null
  (ECMAScript, set Object.prototype.__proto__, step 2). The parser only assigns
  strings, so that assignment leaves the object as it was.
\<close>

type_synonym StyleMap = "js_string \<rightharpoonup> js_string"

definition PROTO :: js_string where
  "PROTO = js ''__proto__''"

definition object_set :: "StyleMap \<Rightarrow> js_string \<Rightarrow> js_string \<Rightarrow> StyleMap" where
  "object_set obj name v = (if name = PROTO then obj else obj(name \<mapsto> v))"

subsection \<open>The loop over the declarations\<close>

text \<open>
  A method call on \<open>undefined\<close> raises a TypeError; it is the only way the body of
  \<open>parseStyle\<close> could throw. The destructuring
  \<^verbatim>\<open>let [property, value] = el.split(":")\<close> reads the indices 0 and 1
  of the array, and \<open>!property\<close> holds for \<open>undefined\<close> and for the empty string.
\<close>

datatype js_error = TypeError

definition style_element :: "StyleMap \<Rightarrow> js_string \<Rightarrow> js_error + StyleMap" where
  "style_element styleProps el =
     (let parts = split COLON el;
          property = at_index parts 0;
          val = at_index parts 1
      in if property = None \<or> property = Some [] \<or> val = None then Inr styleProps
         else
           (case property of
              None \<Rightarrow> Inl TypeError
            | Some property1 \<Rightarrow>
                (let property2 = trim property1;
                     property3 = (if \<not> startsWith property2 [HYPHEN, HYPHEN]
                                  then toCamelCase property2 else property2)
                 in (case val of
                       None \<Rightarrow> Inl TypeError
                     | Some value1 \<Rightarrow> Inr (object_set styleProps property3 (trim value1))))))"

fun style_elements :: "StyleMap \<Rightarrow> js_string list \<Rightarrow> js_error + StyleMap" where
  "style_elements styleProps [] = Inr styleProps"
| "style_elements styleProps (el # els) =
     (case style_element styleProps el of
        Inl e \<Rightarrow> Inl e
      | Inr styleProps' \<Rightarrow> style_elements styleProps' els)"

subsection \<open>The cache\<close>

text \<open>
  \<open>styleCache\<close> is a \<open>Map\<close>: its entries in insertion order, one per key. \<open>set\<close>
  on a present key keeps the entry's place, on a new key appends; \<open>delete\<close> removes
  the key's entry; \<open>keys().next().value\<close> is the first key, \<open>undefined\<close> when the
  map is empty. The parsed objects are held by value: the model is of calls to
  \<open>parseStyle\<close>, none of which writes to an object after it is returned.
\<close>

type_synonym style_cache = "(js_string \<times> StyleMap) list"

definition MAX_STYLE_CACHE_ENTRIES :: nat where
  "MAX_STYLE_CACHE_ENTRIES = 200"

fun Map_get :: "style_cache \<Rightarrow> js_string \<Rightarrow> StyleMap option" where
  "Map_get [] k = None"
| "Map_get ((k', v) # es) k = (if k' = k then Some v else Map_get es k)"

fun Map_set :: "style_cache \<Rightarrow> js_string \<Rightarrow> StyleMap \<Rightarrow> style_cache" where
  "Map_set [] k v = [(k, v)]"
| "Map_set ((k', v') # es) k v = (if k' = k then (k, v) # es else (k', v') # Map_set es k v)"

fun Map_delete :: "style_cache \<Rightarrow> js_string \<Rightarrow> style_cache" where
  "Map_delete [] k = []"
| "Map_delete ((k', v') # es) k = (if k' = k then es else (k', v') # Map_delete es k)"

definition Map_first_key :: "style_cache \<Rightarrow> js_string option" where
  "Map_first_key c = (case c of [] \<Rightarrow> None | (k, v) # es \<Rightarrow> Some k)"

definition Map_keys :: "style_cache \<Rightarrow> js_string list" where
  "Map_keys c = map fst c"

subsection \<open>parseStyle\<close>

text \<open>
  The function takes the cache and returns it with the result. \<open>if (cached)\<close> tests
  an object or \<open>undefined\<close>; every object is truthy, so the test is whether the key is
  present.
\<close>

definition parseStyle :: "style_cache \<Rightarrow> js_string \<Rightarrow> js_error + (StyleMap \<times> style_cache)" where
  "parseStyle styleCache style =
     (let normalizedStyle = trim style
      in if normalizedStyle = [] then Inr (Map.empty, styleCache)
         else
           (case Map_get styleCache normalizedStyle of
              Some cached \<Rightarrow> Inr (cached, styleCache)
            | None \<Rightarrow>
                (case style_elements Map.empty (split SEMICOLON normalizedStyle) of
                   Inl e \<Rightarrow> Inl e
                 | Inr parsed \<Rightarrow>
                     (let styleCache1 =
                            (if length styleCache \<ge> MAX_STYLE_CACHE_ENTRIES
                             then (case Map_first_key styleCache of
                                     None \<Rightarrow> styleCache
                                   | Some firstKey \<Rightarrow> Map_delete styleCache firstKey)
                             else styleCache)
                      in Inr (parsed, Map_set styleCache1 normalizedStyle parsed)))))"

text \<open>A sequence of calls, each on the cache the call before it has left.\<close>

fun parseStyle_calls :: "style_cache \<Rightarrow> js_string list \<Rightarrow> js_error + style_cache" where
  "parseStyle_calls styleCache [] = Inr styleCache"
| "parseStyle_calls styleCache (style # styles) =
     (case parseStyle styleCache style of
        Inl e \<Rightarrow> Inl e
      | Inr (parsed, styleCache') \<Rightarrow> parseStyle_calls styleCache' styles)"

text \<open>
  The parsing algorithm with the cache taken out: \<open>parseStyle\<close> without its lookup,
  its eviction and its insertion. It is the reference for the cached function.
\<close>

definition parseStyle_uncached :: "js_string \<Rightarrow> js_error + StyleMap" where
  "parseStyle_uncached style =
     (let normalizedStyle = trim style
      in if normalizedStyle = [] then Inr Map.empty
         else style_elements Map.empty (split SEMICOLON normalizedStyle))"

subsection \<open>Notions used to state the properties\<close>

text \<open>
  The name under which the loop body stores a declaration whose property part is
  \<open>p\<close>: the body's lines from \<open>property.trim()\<close> to the call of \<open>toCamelCase\<close>.
\<close>

definition property_name :: "js_string \<Rightarrow> js_string" where
  "property_name p =
     (let q = trim p in if \<not> startsWith q [HYPHEN, HYPHEN] then toCamelCase q else q)"

text \<open>
  The assignment a declaration leads to: the name and the value that reach
  \<^verbatim>\<open>styleProps[property] = value.trim()\<close>, or None when the loop body
  takes its \<open>continue\<close>.
\<close>

definition element_entry :: "js_string \<Rightarrow> (js_string \<times> js_string) option" where
  "element_entry el =
     (case split COLON el of
        p # v # rest \<Rightarrow> if p = [] then None else Some (property_name p, trim v)
      | _ \<Rightarrow> None)"

definition element_assign :: "StyleMap \<Rightarrow> js_string \<Rightarrow> StyleMap" where
  "element_assign m el =
     (case element_entry el of None \<Rightarrow> m | Some (k, v) \<Rightarrow> object_set m k v)"

text \<open>Whether a hyphen directly followed by a letter \<open>a\<close> to \<open>z\<close> occurs in a string.\<close>

fun has_hyphen_letter :: "js_string \<Rightarrow> bool" where
  "has_hyphen_letter (c # d # cs) = ((c = HYPHEN \<and> is_a_to_z d) \<or> has_hyphen_letter (d # cs))"
| "has_hyphen_letter cs = False"

text \<open>
  The invariant of the cache: every entry holds, under a non-empty key, what the loop
  computes from that key; the keys are distinct; the size is within the bound.
\<close>

definition cache_sound :: "style_cache \<Rightarrow> bool" where
  "cache_sound c =
     (list_all (\<lambda>(k, v). k \<noteq> [] \<and> style_elements Map.empty (split SEMICOLON k) = Inr v) c \<and>
      distinct (map fst c) \<and> length c \<le> MAX_STYLE_CACHE_ENTRIES)"

text \<open>Style strings \<open>a\<close>, \<open>aa\<close>, \<open>aaa\<close>, ...: pairwise distinct inputs to fill the cache.\<close>

definition sample_style :: "nat \<Rightarrow> js_string" where
  "sample_style n = replicate (Suc n) 0x61"

section \<open>Strings: trim, split, toCamelCase\<close>

lemma trim_blank:
  assumes "list_all isWhiteSpace s"
  shows "trim s = []"
  using assms by (auto simp: trim_def list_all_iff dest: set_dropWhileD)

lemma trim_Nil_iff: "trim s = [] \<longleftrightarrow> list_all isWhiteSpace s"
proof
  assume t: "trim s = []"
  have "dropWhile isWhiteSpace s = []"
  proof (rule ccontr)
    assume n: "dropWhile isWhiteSpace s \<noteq> []"
    then have "\<not> isWhiteSpace (hd (dropWhile isWhiteSpace s))" by (rule hd_dropWhile)
    moreover have "hd (dropWhile isWhiteSpace s) \<in> set (dropWhile isWhiteSpace s)"
      using n by simp
    ultimately show False using t by (auto simp: trim_def)
  qed
  then show "list_all isWhiteSpace s" by (simp add: list_all_iff)
next
  assume "list_all isWhiteSpace s"
  then show "trim s = []" by (rule trim_blank)
qed

lemma trim_id:
  assumes "s \<noteq> []" "\<not> isWhiteSpace (hd s)" "\<not> isWhiteSpace (last s)"
  shows "trim s = s"
proof -
  have 1: "dropWhile isWhiteSpace s = s" using assms(2) by (simp add: dropWhile_eq_self_iff)
  have "hd (rev s) = last s" using assms(1) by (simp add: hd_rev)
  then have 2: "dropWhile isWhiteSpace (rev s) = rev s"
    using assms(3) by (simp add: dropWhile_eq_self_iff)
  show ?thesis by (simp add: trim_def 1 2)
qed

lemma split_not_Nil: "split sep s \<noteq> []"
  by (induction s) (auto split: list.splits)

lemma split_no_sep: "sep \<notin> set s \<Longrightarrow> split sep s = [s]"
  by (induction s) auto

lemma split_append_sep: "sep \<notin> set p \<Longrightarrow> split sep (p @ sep # r) = p # split sep r"
  by (induction p) auto

lemma split_one_colon:
  "COLON \<notin> set p \<Longrightarrow> COLON \<notin> set v \<Longrightarrow> split COLON (p @ COLON # v) = [p, v]"
  by (simp add: split_append_sep split_no_sep)

lemma split_hd: "hd (split sep s) = takeWhile (\<lambda>c. c \<noteq> sep) s"
  by (induction s) (auto split: list.splits simp: split_not_Nil)

lemma split_singleton_iff: "length (split sep s) = 1 \<longleftrightarrow> sep \<notin> set s"
  by (induction s) (auto split: list.splits simp: split_not_Nil)

lemma is_a_to_z_HYPHEN: "\<not> is_a_to_z HYPHEN"
  by (simp add: is_a_to_z_def HYPHEN_def)

lemma replace_hyphen_letter_append:
  "is_a_to_z d \<Longrightarrow>
   replace_hyphen_letter f (xs @ HYPHEN # d # ys) =
   replace_hyphen_letter f xs @ f [HYPHEN, d] @ replace_hyphen_letter f ys"
  by (induction f xs rule: replace_hyphen_letter.induct) (simp_all add: is_a_to_z_HYPHEN)

lemma toCamelCase_pair:
  "is_a_to_z d \<Longrightarrow>
   toCamelCase (xs @ HYPHEN # d # ys) = toCamelCase xs @ (d - 0x20) # toCamelCase ys"
  by (simp add: toCamelCase_def replace_hyphen_letter_append toUpperCase_def)

lemma replace_hyphen_letter_id:
  "\<not> has_hyphen_letter xs \<Longrightarrow> replace_hyphen_letter f xs = xs"
  by (induction f xs rule: replace_hyphen_letter.induct) auto

lemma toCamelCase_id: "\<not> has_hyphen_letter xs \<Longrightarrow> toCamelCase xs = xs"
  by (simp add: toCamelCase_def replace_hyphen_letter_id)

lemma has_hyphen_letter_iff:
  "has_hyphen_letter xs \<longleftrightarrow> (\<exists>us d vs. xs = us @ HYPHEN # d # vs \<and> is_a_to_z d)"
proof
  show "has_hyphen_letter xs \<Longrightarrow> \<exists>us d vs. xs = us @ HYPHEN # d # vs \<and> is_a_to_z d"
  proof (induction xs rule: has_hyphen_letter.induct)
    case (1 c d cs)
    show ?case
    proof (cases "c = HYPHEN \<and> is_a_to_z d")
      case True
      then have "c # d # cs = [] @ HYPHEN # d # cs \<and> is_a_to_z d" by simp
      then show ?thesis by blast
    next
      case False
      with 1 obtain us e vs where "d # cs = us @ HYPHEN # e # vs" "is_a_to_z e" by auto
      then have "c # d # cs = (c # us) @ HYPHEN # e # vs \<and> is_a_to_z e" by simp
      then show ?thesis by blast
    qed
  qed simp_all
next
  assume "\<exists>us d vs. xs = us @ HYPHEN # d # vs \<and> is_a_to_z d"
  then obtain us d vs where xs: "xs = us @ HYPHEN # d # vs" and d: "is_a_to_z d" by blast
  have "has_hyphen_letter (us @ HYPHEN # d # vs)"
    using d by (induction us rule: has_hyphen_letter.induct) simp_all
  then show "has_hyphen_letter xs" by (simp add: xs)
qed

section \<open>The loop as a fold of assignments\<close>

lemma style_element_assign: "style_element m el = Inr (element_assign m el)"
  by (auto simp: style_element_def element_assign_def element_entry_def property_name_def Let_def
      split: list.splits)

lemma style_elements_foldl: "style_elements m els = Inr (foldl element_assign m els)"
  by (induction els arbitrary: m) (simp_all add: style_element_assign)

lemma element_entry_None_iff:
  "element_entry el = None \<longleftrightarrow> (COLON \<notin> set el \<or> takeWhile (\<lambda>c. c \<noteq> COLON) el = [])"
proof -
  have h: "hd (split COLON el) = takeWhile (\<lambda>c. c \<noteq> COLON) el" by (rule split_hd)
  have l: "length (split COLON el) = 1 \<longleftrightarrow> COLON \<notin> set el" by (rule split_singleton_iff)
  show ?thesis
  proof (cases "split COLON el")
    case Nil
    then show ?thesis by (simp add: split_not_Nil)
  next
    case (Cons p ps)
    then show ?thesis using h l by (cases ps) (auto simp: element_entry_def)
  qed
qed

lemma element_entry_one_colon:
  "COLON \<notin> set p \<Longrightarrow> COLON \<notin> set v \<Longrightarrow> p \<noteq> [] \<Longrightarrow>
   element_entry (p @ COLON # v) = Some (property_name p, trim v)"
  by (simp add: element_entry_def split_one_colon)

lemma object_set_other: "k \<noteq> name \<Longrightarrow> object_set m name v k = m k"
  by (simp add: object_set_def)

lemma element_assign_other:
  "map_option fst (element_entry e) \<noteq> Some k \<Longrightarrow> element_assign m e k = m k"
  by (auto simp: element_assign_def object_set_other split: option.splits)

lemma foldl_assign_other:
  "list_all (\<lambda>e. map_option fst (element_entry e) \<noteq> Some k) es \<Longrightarrow>
   foldl element_assign m es k = m k"
  by (induction es arbitrary: m) (simp_all add: element_assign_other)

lemma foldl_assign_last:
  assumes "element_entry el = Some (k, v)" "k \<noteq> PROTO"
    "list_all (\<lambda>e. map_option fst (element_entry e) \<noteq> Some k) after"
  shows "foldl element_assign m (before @ el # after) k = Some v"
  using assms by (simp add: foldl_assign_other element_assign_def object_set_def)

lemma foldl_assign_skip:
  "element_entry el = None \<Longrightarrow>
   foldl element_assign m (before @ el # after) = foldl element_assign m (before @ after)"
  by (simp add: element_assign_def)

lemma foldl_assign_blank:
  assumes "trim s = []"
  shows "foldl element_assign Map.empty (split SEMICOLON (trim s)) = Map.empty"
  using assms by (simp add: element_assign_def element_entry_def)

lemma parseStyle_uncached_eq:
  "parseStyle_uncached s = Inr (foldl element_assign Map.empty (split SEMICOLON (trim s)))"
proof (cases "trim s = []")
  case True
  then show ?thesis by (simp add: parseStyle_uncached_def element_assign_def element_entry_def)
next
  case False
  then show ?thesis by (simp add: parseStyle_uncached_def Let_def style_elements_foldl)
qed

section \<open>The cache: hits, misses and the invariant\<close>

lemma Map_get_SomeD: "Map_get c k = Some v \<Longrightarrow> (k, v) \<in> set c"
  by (induction c) (auto split: if_splits)

lemma Map_get_None_iff: "Map_get c k = None \<longleftrightarrow> k \<notin> set (map fst c)"
  by (induction c k rule: Map_get.induct) auto

lemma Map_set_new: "k \<notin> set (map fst c) \<Longrightarrow> Map_set c k v = c @ [(k, v)]"
  by (induction c) auto

lemma cache_sound_Nil: "cache_sound []"
  by (simp add: cache_sound_def)

lemma cache_sound_tl: "cache_sound c \<Longrightarrow> cache_sound (tl c)"
  by (cases c) (auto simp: cache_sound_def)

lemma cache_sound_snoc:
  "cache_sound c \<Longrightarrow> k \<notin> set (map fst c) \<Longrightarrow> k \<noteq> [] \<Longrightarrow> length c < MAX_STYLE_CACHE_ENTRIES \<Longrightarrow>
   style_elements Map.empty (split SEMICOLON k) = Inr v \<Longrightarrow> cache_sound (c @ [(k, v)])"
  by (auto simp: cache_sound_def)

lemma parseStyle_miss:
  assumes "trim s \<noteq> []" "trim s \<notin> set (map fst c)"
  shows "parseStyle c s =
     Inr (foldl element_assign Map.empty (split SEMICOLON (trim s)),
          (if length c \<ge> MAX_STYLE_CACHE_ENTRIES then tl c else c) @
            [(trim s, foldl element_assign Map.empty (split SEMICOLON (trim s)))])"
proof -
  have g: "Map_get c (trim s) = None" using assms(2) by (simp add: Map_get_None_iff)
  have t: "trim s \<notin> set (map fst (tl c))" using assms(2) by (cases c) auto
  show ?thesis
  proof (cases c)
    case Nil
    then show ?thesis using assms g
      by (simp add: parseStyle_def Let_def style_elements_foldl Map_first_key_def)
  next
    case (Cons e es)
    obtain k v where e: "e = (k, v)" by (cases e)
    have ne: "k \<noteq> trim s" using assms(2) Cons e by auto
    show ?thesis using assms g t Cons e ne
      by (simp add: parseStyle_def Let_def style_elements_foldl Map_first_key_def Map_set_new)
  qed
qed

lemma parseStyle_hit:
  assumes "trim s \<noteq> []" "Map_get c (trim s) = Some v"
  shows "parseStyle c s = Inr (v, c)"
  using assms by (simp add: parseStyle_def Let_def)

lemma parseStyle_blank:
  assumes "trim s = []"
  shows "parseStyle c s = Inr (Map.empty, c)"
  using assms by (simp add: parseStyle_def Let_def)

lemma parseStyle_sound:
  assumes "cache_sound c"
  shows "\<exists>m c'. parseStyle c s = Inr (m, c') \<and> parseStyle_uncached s = Inr m \<and> cache_sound c'"
proof (cases "trim s = []")
  case True
  then show ?thesis using assms
    by (simp add: parseStyle_blank parseStyle_uncached_def)
next
  case False
  show ?thesis
  proof (cases "Map_get c (trim s)")
    case None
    then have nin: "trim s \<notin> set (map fst c)" by (simp add: Map_get_None_iff)
    let ?m = "foldl element_assign Map.empty (split SEMICOLON (trim s))"
    let ?c = "(if length c \<ge> MAX_STYLE_CACHE_ENTRIES then tl c else c)"
    have 1: "cache_sound ?c" using assms by (simp add: cache_sound_tl)
    have 2: "trim s \<notin> set (map fst ?c)" using nin by (cases c) auto
    have 3: "length ?c < MAX_STYLE_CACHE_ENTRIES" using assms
      by (cases c) (auto simp: cache_sound_def MAX_STYLE_CACHE_ENTRIES_def)
    have "cache_sound (?c @ [(trim s, ?m)])"
      using cache_sound_snoc[OF 1 2 False 3] by (simp add: style_elements_foldl)
    then show ?thesis using False nin
      by (simp add: parseStyle_miss parseStyle_uncached_eq)
  next
    case (Some v)
    then have "(trim s, v) \<in> set c" by (rule Map_get_SomeD)
    then have "style_elements Map.empty (split SEMICOLON (trim s)) = Inr v"
      using assms by (auto simp: cache_sound_def list_all_iff)
    then show ?thesis using False Some assms
      by (simp add: parseStyle_hit parseStyle_uncached_def Let_def)
  qed
qed

lemma parseStyle_calls_sound:
  "cache_sound c \<Longrightarrow> \<exists>c'. parseStyle_calls c styles = Inr c' \<and> cache_sound c'"
proof (induction styles arbitrary: c)
  case Nil
  then show ?case by simp
next
  case (Cons s styles)
  from parseStyle_sound[OF Cons.prems, of s] obtain m c1 where
    "parseStyle c s = Inr (m, c1)" "cache_sound c1" by blast
  then show ?case using Cons.IH[of c1] by simp
qed

text \<open>
  After any sequence of calls from the empty cache, a further call returns what the
  loop computes from the trimmed input.
\<close>

lemma parseStyle_after_calls:
  "\<exists>c c'. parseStyle_calls [] styles = Inr c \<and> cache_sound c \<and>
     parseStyle c s = Inr (foldl element_assign Map.empty (split SEMICOLON (trim s)), c')"
proof -
  from parseStyle_calls_sound[OF cache_sound_Nil, of styles] obtain c where
    c: "parseStyle_calls [] styles = Inr c" "cache_sound c" by blast
  from parseStyle_sound[OF c(2), of s] obtain m c' where
    "parseStyle c s = Inr (m, c')" "parseStyle_uncached s = Inr m" by blast
  then show ?thesis using c by (auto simp: parseStyle_uncached_eq)
qed

lemma parseStyle_calls_append:
  "parseStyle_calls c (xs @ ys) =
     (case parseStyle_calls c xs of Inl e \<Rightarrow> Inl e | Inr c' \<Rightarrow> parseStyle_calls c' ys)"
  by (induction xs arbitrary: c) (auto split: sum.splits)

lemma parseStyle_calls_fifo:
  assumes "distinct (map trim styles)" "[] \<notin> set (map trim styles)"
  shows "\<exists>c. parseStyle_calls [] styles = Inr c \<and>
             Map_keys c = drop (length styles - MAX_STYLE_CACHE_ENTRIES) (map trim styles)"
  using assms
proof (induction styles rule: rev_induct)
  case Nil
  then show ?case by (simp add: Map_keys_def)
next
  case (snoc s styles)
  let ?n = "length styles" 
  let ?M = MAX_STYLE_CACHE_ENTRIES
  from snoc obtain c where c: "parseStyle_calls [] styles = Inr c"
    and k: "Map_keys c = drop (?n - ?M) (map trim styles)" by auto
  have len: "length c = ?n - (?n - ?M)"
  proof -
    have "length c = length (Map_keys c)" by (simp add: Map_keys_def)
    then show ?thesis by (simp add: k)
  qed
  have ne: "trim s \<noteq> []" using snoc.prems(2) by auto
  have "trim s \<notin> set (map trim styles)" using snoc.prems(1) by auto
  moreover have "set (Map_keys c) \<subseteq> set (map trim styles)" unfolding k by (rule set_drop_subset)
  ultimately have nin: "trim s \<notin> set (map fst c)" by (auto simp: Map_keys_def)
  let ?m = "foldl element_assign Map.empty (split SEMICOLON (trim s))"
  let ?c' = "(if length c \<ge> ?M then tl c else c) @ [(trim s, ?m)]"
  have p: "parseStyle c s = Inr (?m, ?c')" using ne nin by (rule parseStyle_miss)
  have calls: "parseStyle_calls [] (styles @ [s]) = Inr ?c'"
    by (simp add: parseStyle_calls_append c p)
  have "Map_keys ?c' = drop (length (styles @ [s]) - ?M) (map trim (styles @ [s]))"
  proof (cases "?M \<le> ?n")
    case True
    then have "length c = ?M" using len by simp
    then have "Map_keys ?c' = tl (Map_keys c) @ [trim s]" by (simp add: Map_keys_def map_tl)
    also have "tl (Map_keys c) = drop (Suc (?n - ?M)) (map trim styles)"
      by (simp add: k drop_Suc tl_drop)
    finally have keys: "Map_keys ?c' = drop (Suc (?n - ?M)) (map trim styles) @ [trim s]" .
    have e: "length (styles @ [s]) - ?M = Suc (?n - ?M)"
      using True by (simp add: MAX_STYLE_CACHE_ENTRIES_def)
    have le: "Suc (?n - ?M) \<le> ?n"
      using True by (simp add: MAX_STYLE_CACHE_ENTRIES_def)
    have "drop (Suc (?n - ?M)) (map trim (styles @ [s])) =
          drop (Suc (?n - ?M)) (map trim styles) @ [trim s]"
      using le by simp
    then show ?thesis unfolding e keys by simp
  next
    case False
    then have "length c < ?M" using len by simp
    then have "Map_keys ?c' = Map_keys c @ [trim s]" by (simp add: Map_keys_def)
    then show ?thesis using False by (simp add: k)
  qed
  with calls show ?case by blast
qed

section \<open>Sample inputs\<close>

lemma trim_sample_style: "trim (sample_style n) = sample_style n"
proof -
  have "\<not> isWhiteSpace 0x61" by (simp add: isWhiteSpace_def)
  moreover have "last (sample_style n) = 0x61" "hd (sample_style n) = 0x61" "sample_style n \<noteq> []"
    by (simp_all add: sample_style_def)
  ultimately show ?thesis by (simp add: trim_id)
qed

lemma sample_style_inj: "sample_style i = sample_style j \<longleftrightarrow> i = j"
proof
  assume "sample_style i = sample_style j"
  then have "length (sample_style i) = length (sample_style j)" by simp
  then show "i = j" by (simp add: sample_style_def)
qed simp

lemma sample_styles_trim: "map trim (map sample_style ns) = map sample_style ns"
  by (simp add: trim_sample_style)

lemma sample_styles_distinct: "distinct (map sample_style [0..<n])"
  by (simp add: distinct_map inj_on_def sample_style_inj)

lemma sample_styles_nonempty: "[] \<notin> set (map sample_style ns)"
  by (auto simp: sample_style_def)

section \<open>The result of a call, declaration by declaration\<close>

lemma parseStyle_after_calls_last:
  assumes "split SEMICOLON (trim s) = before @ el # after" "element_entry el = Some (k, v)"
    "k \<noteq> PROTO" "list_all (\<lambda>e. map_option fst (element_entry e) \<noteq> Some k) after"
  shows "\<exists>c m c'. parseStyle_calls [] styles = Inr c \<and> parseStyle c s = Inr (m, c') \<and> m k = Some v"
proof -
  from parseStyle_after_calls[of styles s] obtain c c' where
    "parseStyle_calls [] styles = Inr c"
    "parseStyle c s = Inr (foldl element_assign Map.empty (split SEMICOLON (trim s)), c')"
    by blast
  moreover have "foldl element_assign Map.empty (split SEMICOLON (trim s)) k = Some v"
    unfolding assms(1) using assms(2-4) by (rule foldl_assign_last)
  ultimately show ?thesis by blast
qed

lemma parseStyle_after_calls_skip:
  assumes "split SEMICOLON (trim s) = before @ el # after" "element_entry el = None"
  shows "\<exists>c m c'. parseStyle_calls [] styles = Inr c \<and> parseStyle c s = Inr (m, c') \<and>
           style_elements Map.empty (before @ after) = Inr m"
proof -
  from parseStyle_after_calls[of styles s] obtain c c' where
    "parseStyle_calls [] styles = Inr c"
    "parseStyle c s = Inr (foldl element_assign Map.empty (split SEMICOLON (trim s)), c')"
    by blast
  moreover have "style_elements Map.empty (before @ after) =
      Inr (foldl element_assign Map.empty (split SEMICOLON (trim s)))"
    unfolding assms(1) style_elements_foldl using assms(2) by (simp add: element_assign_def)
  ultimately show ?thesis by blast
qed


lemma property_name_eq:
  "property_name p = (if startsWith (trim p) [HYPHEN, HYPHEN] then trim p else toCamelCase (trim p))"
  by (simp add: property_name_def Let_def)

lemma element_entry_colon:
  assumes "COLON \<notin> set p" "p \<noteq> []"
  shows "\<exists>val. element_entry (p @ COLON # rest) = Some (property_name p, val) \<and>
           (COLON \<notin> set rest \<longrightarrow> val = trim rest)"
proof -
  have sp: "split COLON (p @ COLON # rest) = p # split COLON rest"
    using assms(1) by (rule split_append_sep)
  obtain v vs where vs: "split COLON rest = v # vs"
    using split_not_Nil[of COLON rest] by (cases "split COLON rest") auto
  have e: "element_entry (p @ COLON # rest) = Some (property_name p, trim v)"
    using assms(2) by (simp add: element_entry_def sp vs)
  have "COLON \<notin> set rest \<longrightarrow> trim v = trim rest"
    using vs by (auto simp: split_no_sep)
  with e show ?thesis by blast
qed

section \<open>The claims\<close>

lemmas js_eval =
  js_def trim_def isWhiteSpace_def SEMICOLON_def COLON_def HYPHEN_def startsWith_def
  is_a_to_z_def toUpperCase_def toCamelCase_def PROTO_def object_set_def
  property_name_def element_entry_def element_assign_def

text \<open>
  Claim C1. The cache is transparent: after any sequence of calls of \<open>parseStyle\<close>
  from the empty cache (of any length, more than 200 distinct inputs included), a call
  on any style string returns the map that the parsing algorithm without the cache
  computes from that string.
\<close>

theorem parseStyle_cache_transparent:
  "\<exists>c m c'. parseStyle_calls [] styles = Inr c \<and> parseStyle c s = Inr (m, c') \<and>
     parseStyle_uncached s = Inr m"
proof -
  from parseStyle_calls_sound[OF cache_sound_Nil, of styles] obtain c where
    c: "parseStyle_calls [] styles = Inr c" "cache_sound c" by blast
  from parseStyle_sound[OF c(2), of s] obtain m c' where
    "parseStyle c s = Inr (m, c')" "parseStyle_uncached s = Inr m" by blast
  with c(1) show ?thesis by blast
qed

text \<open>
  Two instances: after two calls, the padded string \<open>" color: red "\<close> hits the
  entry of \<open>"color: red"\<close> and the call returns what the uncached algorithm
  computes; after 201 distinct inputs, which have evicted the first of them, a call on
  that first input returns what the uncached algorithm computes from it.
\<close>

theorem parseStyle_cache_transparent_witness:
  "parseStyle_uncached (js '' color: red '') = Inr [js ''color'' \<mapsto> js ''red''] \<and>
   (\<exists>c c'. parseStyle_calls [] [js ''margin: 0'', js ''color: red''] = Inr c \<and>
      parseStyle c (js '' color: red '') = Inr ([js ''color'' \<mapsto> js ''red''], c')) \<and>
   parseStyle_uncached (sample_style 0) = Inr Map.empty \<and>
   (\<exists>c c'. parseStyle_calls [] (map sample_style [0..<201]) = Inr c \<and>
      parseStyle c (sample_style 0) = Inr (Map.empty, c'))"
proof -
  have u: "parseStyle_uncached (js '' color: red '') = Inr [js ''color'' \<mapsto> js ''red'']"
    by (simp add: parseStyle_uncached_eq js_eval)
  from parseStyle_cache_transparent[of "[js ''margin: 0'', js ''color: red'']" "js '' color: red ''"]
  obtain c m c' where
    "parseStyle_calls [] [js ''margin: 0'', js ''color: red''] = Inr c"
    "parseStyle c (js '' color: red '') = Inr (m, c')"
    "parseStyle_uncached (js '' color: red '') = Inr m" by blast
  with u have 1: "\<exists>c c'. parseStyle_calls [] [js ''margin: 0'', js ''color: red''] = Inr c \<and>
      parseStyle c (js '' color: red '') = Inr ([js ''color'' \<mapsto> js ''red''], c')"
    by auto
  have v: "parseStyle_uncached (sample_style 0) = Inr Map.empty"
    by (simp add: parseStyle_uncached_eq sample_style_def js_eval)
  from parseStyle_cache_transparent[of "map sample_style [0..<201]" "sample_style 0"]
  obtain d n d' where
    "parseStyle_calls [] (map sample_style [0..<201]) = Inr d"
    "parseStyle d (sample_style 0) = Inr (n, d')"
    "parseStyle_uncached (sample_style 0) = Inr n" by blast
  with v have 2: "\<exists>c c'. parseStyle_calls [] (map sample_style [0..<201]) = Inr c \<and>
      parseStyle c (sample_style 0) = Inr (Map.empty, c')"
    by auto
  from u 1 v 2 show ?thesis by blast
qed

text \<open>
  Claim C2. The claim says that a declaration is split at its first colon and that the
  stored value is all the text behind it. The code splits at every colon and keeps the
  second piece only: for \<open>background: url(http://x)\<close> the stored value is
  \<open>url(http\<close>, the text between the first and the second colon.
\<close>

theorem parseStyle_second_colon_ends_value:
  "parseStyle [] (js ''background: url(http://x)'') =
     Inr ([js ''background'' \<mapsto> js ''url(http''],
          [(js ''background: url(http://x)'', [js ''background'' \<mapsto> js ''url(http''])])"
  by (simp add: parseStyle_def style_element_def Let_def Map_first_key_def
      MAX_STYLE_CACHE_ENTRIES_def js_eval)

text \<open>
  Claim C3. After any sequence of calls the cache holds at most 200 entries. A call on
  a new non-empty trimmed input that finds the cache full removes exactly the first
  entry of the insertion order and appends the new one; below the bound it only
  appends. A hit returns the stored map and leaves the cache and its order as they
  are, so the order is that of insertion, not of use. For calls on pairwise distinct
  inputs the keys are the trimmed inputs of the last 200 calls, in the order of the
  calls: the 201st distinct input evicts the input of the first call.
\<close>

theorem styleCache_bounded_fifo:
  "\<exists>c. parseStyle_calls [] styles = Inr c \<and> length c \<le> MAX_STYLE_CACHE_ENTRIES \<and>
     (length c = MAX_STYLE_CACHE_ENTRIES \<and> trim s \<noteq> [] \<and> trim s \<notin> set (Map_keys c) \<longrightarrow>
        (\<exists>m. parseStyle c s = Inr (m, tl c @ [(trim s, m)]))) \<and>
     (length c < MAX_STYLE_CACHE_ENTRIES \<and> trim s \<noteq> [] \<and> trim s \<notin> set (Map_keys c) \<longrightarrow>
        (\<exists>m. parseStyle c s = Inr (m, c @ [(trim s, m)]))) \<and>
     (\<forall>m. trim s \<noteq> [] \<and> Map_get c (trim s) = Some m \<longrightarrow> parseStyle c s = Inr (m, c)) \<and>
     (distinct (map trim styles) \<and> [] \<notin> set (map trim styles) \<longrightarrow>
        Map_keys c = drop (length styles - MAX_STYLE_CACHE_ENTRIES) (map trim styles))"
proof -
  from parseStyle_calls_sound[OF cache_sound_Nil, of styles] obtain c where
    c: "parseStyle_calls [] styles = Inr c" and snd: "cache_sound c" by blast
  have bound: "length c \<le> MAX_STYLE_CACHE_ENTRIES" using snd by (simp add: cache_sound_def)
  have full: "\<exists>m. parseStyle c s = Inr (m, tl c @ [(trim s, m)])"
    if "length c = MAX_STYLE_CACHE_ENTRIES" "trim s \<noteq> []" "trim s \<notin> set (Map_keys c)"
    using parseStyle_miss[of s c] that by (simp add: Map_keys_def)
  have room: "\<exists>m. parseStyle c s = Inr (m, c @ [(trim s, m)])"
    if "length c < MAX_STYLE_CACHE_ENTRIES" "trim s \<noteq> []" "trim s \<notin> set (Map_keys c)"
    using parseStyle_miss[of s c] that by (simp add: Map_keys_def)
  have hit: "parseStyle c s = Inr (m, c)" if "trim s \<noteq> []" "Map_get c (trim s) = Some m" for m
    using that by (rule parseStyle_hit)
  have fifo: "Map_keys c = drop (length styles - MAX_STYLE_CACHE_ENTRIES) (map trim styles)"
    if "distinct (map trim styles)" "[] \<notin> set (map trim styles)"
    using parseStyle_calls_fifo[OF that] c by auto
  from c bound full room hit fifo show ?thesis by blast
qed

text \<open>
  An instance: 200 distinct inputs fill the cache; a further call on the first of them
  is a hit and changes nothing; the call on a new input then evicts that first entry,
  the one used last. And 201 distinct inputs leave the keys of the calls 2 to 201.
\<close>

theorem styleCache_bounded_fifo_witness:
  "(\<exists>c m m'. parseStyle_calls [] (map sample_style [0..<200]) = Inr c \<and> length c = 200 \<and>
      Map_keys c = map sample_style [0..<200] \<and>
      parseStyle c (sample_style 0) = Inr (m, c) \<and>
      parseStyle c (js ''color: red'') = Inr (m', tl c @ [(js ''color: red'', m')]) \<and>
      Map_keys (tl c @ [(js ''color: red'', m')]) = map sample_style [1..<200] @ [js ''color: red'']) \<and>
   (\<exists>c. parseStyle_calls [] (map sample_style [0..<201]) = Inr c \<and>
      Map_keys c = map sample_style [1..<201])"
proof -
  let ?S = "map sample_style [0..<200]"
  have tc: "trim (js ''color: red'') = js ''color: red''" by (simp add: js_eval)
  have ts: "trim (sample_style 0) = sample_style 0" by (rule trim_sample_style)
  have d: "distinct (map trim ?S) \<and> [] \<notin> set (map trim ?S)"
    unfolding sample_styles_trim using sample_styles_distinct sample_styles_nonempty by blast
  from styleCache_bounded_fifo[of ?S "js ''color: red''"] obtain c where
    c: "parseStyle_calls [] ?S = Inr c"
    and full: "length c = MAX_STYLE_CACHE_ENTRIES \<and> trim (js ''color: red'') \<noteq> [] \<and>
        trim (js ''color: red'') \<notin> set (Map_keys c) \<longrightarrow>
        (\<exists>m. parseStyle c (js ''color: red'') = Inr (m, tl c @ [(trim (js ''color: red''), m)]))"
    and fifo: "distinct (map trim ?S) \<and> [] \<notin> set (map trim ?S) \<longrightarrow>
        Map_keys c = drop (length ?S - MAX_STYLE_CACHE_ENTRIES) (map trim ?S)"
    by blast
  have trS: "map trim ?S = ?S" by (rule sample_styles_trim)
  from fifo d have "Map_keys c = drop (length ?S - MAX_STYLE_CACHE_ENTRIES) (map trim ?S)"
    by blast
  then have keys: "Map_keys c = ?S"
    unfolding trS by (simp add: MAX_STYLE_CACHE_ENTRIES_def)
  have "length c = length (Map_keys c)" by (simp add: Map_keys_def)
  then have len: "length c = 200" by (simp add: keys)
  have nin: "js ''color: red'' \<notin> set (Map_keys c)"
    unfolding keys by (auto simp: sample_style_def js_def)
  have ne: "js ''color: red'' \<noteq> []" by (simp add: js_def)
  have lenM: "length c = MAX_STYLE_CACHE_ENTRIES" by (simp add: len MAX_STYLE_CACHE_ENTRIES_def)
  from full[unfolded tc] lenM ne nin obtain m' where
    miss: "parseStyle c (js ''color: red'') = Inr (m', tl c @ [(js ''color: red'', m')])"
    by blast
  have "sample_style 0 \<in> set (map fst c)" using keys by (simp add: Map_keys_def)
  then obtain m where g: "Map_get c (trim (sample_style 0)) = Some m"
    using Map_get_None_iff[of c "sample_style 0"] ts by (cases "Map_get c (sample_style 0)") auto
  have "sample_style 0 \<noteq> []" by (simp add: sample_style_def)
  then have "trim (sample_style 0) \<noteq> []" unfolding ts .
  with g styleCache_bounded_fifo[of ?S "sample_style 0"] c
  have hit: "parseStyle c (sample_style 0) = Inr (m, c)" by auto
  have "Map_keys (tl c) = tl (Map_keys c)" by (simp add: Map_keys_def map_tl)
  also have "\<dots> = map sample_style [1..<200]" by (simp add: keys flip: map_tl)
  finally have k2: "Map_keys (tl c @ [(js ''color: red'', m')]) =
      map sample_style [1..<200] @ [js ''color: red'']"
    by (simp add: Map_keys_def)
  let ?T = "map sample_style [0..<201]"
  have d2: "distinct (map trim ?T) \<and> [] \<notin> set (map trim ?T)"
    unfolding sample_styles_trim using sample_styles_distinct sample_styles_nonempty by blast
  from styleCache_bounded_fifo[of ?T "[]"] obtain c2 where
    c2: "parseStyle_calls [] ?T = Inr c2"
    and fifo2: "distinct (map trim ?T) \<and> [] \<notin> set (map trim ?T) \<longrightarrow>
        Map_keys c2 = drop (length ?T - MAX_STYLE_CACHE_ENTRIES) (map trim ?T)"
    by blast
  have trT: "map trim ?T = ?T" by (rule sample_styles_trim)
  from fifo2 d2 have "Map_keys c2 = drop (length ?T - MAX_STYLE_CACHE_ENTRIES) (map trim ?T)"
    by blast
  then have "Map_keys c2 = drop 1 ?T"
    unfolding trT by (simp add: MAX_STYLE_CACHE_ENTRIES_def del: upt_Suc)
  also have "\<dots> = map sample_style [1..<201]" by (simp add: drop_map del: upt_Suc)
  finally have keys2: "Map_keys c2 = map sample_style [1..<201]" .
  from c len keys hit miss k2 c2 keys2 show ?thesis by blast
qed

text \<open>
  Claim C4. Two style strings that are equal after trimming give equal maps, whatever
  calls came before either of them.
\<close>

theorem parseStyle_equal_after_trim:
  "trim s1 = trim s2 \<Longrightarrow>
   \<exists>c1 c2 m c1' c2'. parseStyle_calls [] styles1 = Inr c1 \<and> parseStyle_calls [] styles2 = Inr c2 \<and>
      parseStyle c1 s1 = Inr (m, c1') \<and> parseStyle c2 s2 = Inr (m, c2')"
proof -
  assume t: "trim s1 = trim s2"
  from parseStyle_after_calls[of styles1 s1] obtain c1 c1' where
    1: "parseStyle_calls [] styles1 = Inr c1"
       "parseStyle c1 s1 = Inr (foldl element_assign Map.empty (split SEMICOLON (trim s1)), c1')"
    by blast
  from parseStyle_after_calls[of styles2 s2] obtain c2 c2' where
    2: "parseStyle_calls [] styles2 = Inr c2"
       "parseStyle c2 s2 = Inr (foldl element_assign Map.empty (split SEMICOLON (trim s2)), c2')"
    by blast
  from 1 2 t show ?thesis by auto
qed

theorem parseStyle_equal_after_trim_witness:
  "trim (js ''  color: red'') = trim (js ''color: red   '') \<and>
   (\<exists>c1 c2 m c1' c2'. parseStyle_calls [] [] = Inr c1 \<and>
      parseStyle_calls [] [js ''color: red''] = Inr c2 \<and>
      parseStyle c1 (js ''  color: red'') = Inr (m, c1') \<and>
      parseStyle c2 (js ''color: red   '') = Inr (m, c2'))"
proof -
  have t: "trim (js ''  color: red'') = trim (js ''color: red   '')"
    by (simp add: js_eval)
  from parseStyle_equal_after_trim[OF t, of "[]" "[js ''color: red'']"] t
  show ?thesis by blast
qed

text \<open>
  Claim C5, amended. For every declaration with a non-empty property part and a colon,
  whose name as computed below is not \<open>__proto__\<close>: the name is the trimmed
  property part, kept verbatim when it starts with \<open>--\<close> and converted by
  \<open>toCamelCase\<close> otherwise; the loop body stores a value under that name, and
  when no further colon stands behind the first one that value is the trimmed text
  behind the colon, unchanged; the result of \<open>parseStyle\<close> holds that value under
  that name unless a later declaration of the input stores the same name.
  \<open>toCamelCase\<close> turns every hyphen that is followed by a letter \<open>a\<close> to \<open>z\<close>
  and that letter into the upper case letter (32 code units below), and returns a
  string without such a pair as it is.
\<close>

theorem declaration_name_and_value:
  "(el = p @ COLON # rest \<and> COLON \<notin> set p \<and> p \<noteq> [] \<and>
    name = (if startsWith (trim p) [HYPHEN, HYPHEN] then trim p else toCamelCase (trim p)) \<and>
    name \<noteq> PROTO \<longrightarrow>
      (\<exists>val. (COLON \<notin> set rest \<longrightarrow> val = trim rest) \<and>
         style_element styleProps el = Inr (styleProps(name \<mapsto> val)) \<and>
         (split SEMICOLON (trim s) = before @ el # after \<and>
          list_all (\<lambda>e. map_option fst (element_entry e) \<noteq> Some name) after \<longrightarrow>
            (\<exists>c m c'. parseStyle_calls [] styles = Inr c \<and> parseStyle c s = Inr (m, c') \<and>
               m name = Some val)))) \<and>
   (is_a_to_z d \<longrightarrow>
      toCamelCase (xs @ HYPHEN # d # ys) = toCamelCase xs @ (d - 0x20) # toCamelCase ys) \<and>
   (\<not> has_hyphen_letter zs \<longrightarrow> toCamelCase zs = zs)"
proof (intro conjI impI)
  assume h: "el = p @ COLON # rest \<and> COLON \<notin> set p \<and> p \<noteq> [] \<and>
    name = (if startsWith (trim p) [HYPHEN, HYPHEN] then trim p else toCamelCase (trim p)) \<and>
    name \<noteq> PROTO"
  then have nm: "name = property_name p" by (simp add: property_name_eq)
  from h element_entry_colon[of p rest] obtain val where
    e: "element_entry el = Some (name, val)" and v: "COLON \<notin> set rest \<longrightarrow> val = trim rest"
    unfolding nm by auto
  from h have np: "name \<noteq> PROTO" by blast
  have "element_assign styleProps el = object_set styleProps name val"
    by (simp add: element_assign_def e)
  also have "\<dots> = styleProps(name \<mapsto> val)" using np by (simp add: object_set_def)
  finally have st: "style_element styleProps el = Inr (styleProps(name \<mapsto> val))"
    by (simp add: style_element_assign)
  have res: "\<exists>c m c'. parseStyle_calls [] styles = Inr c \<and> parseStyle c s = Inr (m, c') \<and>
      m name = Some val"
    if "split SEMICOLON (trim s) = before @ el # after \<and>
        list_all (\<lambda>e. map_option fst (element_entry e) \<noteq> Some name) after"
    using parseStyle_after_calls_last[of s before el after name val styles] e np that by blast
  from v st res show "\<exists>val. (COLON \<notin> set rest \<longrightarrow> val = trim rest) \<and>
         style_element styleProps el = Inr (styleProps(name \<mapsto> val)) \<and>
         (split SEMICOLON (trim s) = before @ el # after \<and>
          list_all (\<lambda>e. map_option fst (element_entry e) \<noteq> Some name) after \<longrightarrow>
            (\<exists>c m c'. parseStyle_calls [] styles = Inr c \<and> parseStyle c s = Inr (m, c') \<and>
               m name = Some val))"
    by blast
next
  assume "is_a_to_z d"
  then show "toCamelCase (xs @ HYPHEN # d # ys) = toCamelCase xs @ (d - 0x20) # toCamelCase ys"
    by (rule toCamelCase_pair)
next
  assume "\<not> has_hyphen_letter zs"
  then show "toCamelCase zs = zs" by (rule toCamelCase_id)
qed

text \<open>
  Instances: \<open>margin-top : 2px\<close> behind another declaration is stored as
  \<open>marginTop\<close> with the value \<open>2px\<close>; the custom property \<open>--main-color\<close> keeps
  its name; and \<open>background-image: url(http://x)\<close>, whose value holds a colon, is
  stored under \<open>backgroundImage\<close>.
\<close>

theorem declaration_name_and_value_witness:
  "style_element Map.empty (js '' margin-top : 2px'') = Inr [js ''marginTop'' \<mapsto> js ''2px''] \<and>
   (\<exists>c m c'. parseStyle_calls [] [js ''a: b''] = Inr c \<and>
      parseStyle c (js ''color: red; margin-top : 2px'') = Inr (m, c') \<and>
      m (js ''marginTop'') = Some (js ''2px'')) \<and>
   style_element Map.empty (js ''--main-color: #fff '') = Inr [js ''--main-color'' \<mapsto> js ''#fff''] \<and>
   (\<exists>val. style_element Map.empty (js ''background-image: url(http://x)'') =
      Inr [js ''backgroundImage'' \<mapsto> val]) \<and>
   toCamelCase (js ''margin-top'') = js ''marginTop'' \<and>
   toCamelCase (js ''color'') = js ''color''"
proof -
  note T1 = declaration_name_and_value[where el = "js '' margin-top : 2px''"
      and p = "js '' margin-top ''" and rest = "js '' 2px''" and name = "js ''marginTop''"
      and styleProps = Map.empty and s = "js ''color: red; margin-top : 2px''"
      and before = "[js ''color: red'']" and after = "[]" and styles = "[js ''a: b'']"
      and d = "0x74" and xs = "js ''margin''" and ys = "js ''op''" and zs = "js ''color''"]
  note T2 = declaration_name_and_value[where el = "js ''--main-color: #fff ''"
      and p = "js ''--main-color''" and rest = "js '' #fff ''" and name = "js ''--main-color''"
      and styleProps = Map.empty, THEN conjunct1]
  note T3 = declaration_name_and_value[where el = "js ''background-image: url(http://x)''"
      and p = "js ''background-image''" and rest = "js '' url(http://x)''"
      and name = "js ''backgroundImage''" and styleProps = Map.empty, THEN conjunct1]
  have h1: "js '' margin-top : 2px'' = js '' margin-top '' @ COLON # js '' 2px'' \<and>
      COLON \<notin> set (js '' margin-top '') \<and> js '' margin-top '' \<noteq> [] \<and>
      js ''marginTop'' = (if startsWith (trim (js '' margin-top '')) [HYPHEN, HYPHEN]
         then trim (js '' margin-top '') else toCamelCase (trim (js '' margin-top ''))) \<and>
      js ''marginTop'' \<noteq> PROTO"
    by (simp add: js_eval)
  have c1: "COLON \<notin> set (js '' 2px'')" by (simp add: js_eval)
  have h2: "split SEMICOLON (trim (js ''color: red; margin-top : 2px'')) =
      [js ''color: red''] @ js '' margin-top : 2px'' # [] \<and>
      list_all (\<lambda>e. map_option fst (element_entry e) \<noteq> Some (js ''marginTop'')) []"
    by (simp add: js_eval)
  have v1: "trim (js '' 2px'') = js ''2px''" by (simp add: js_eval)
  have h3: "js ''--main-color: #fff '' = js ''--main-color'' @ COLON # js '' #fff '' \<and>
      COLON \<notin> set (js ''--main-color'') \<and> js ''--main-color'' \<noteq> [] \<and>
      js ''--main-color'' = (if startsWith (trim (js ''--main-color'')) [HYPHEN, HYPHEN]
         then trim (js ''--main-color'') else toCamelCase (trim (js ''--main-color''))) \<and>
      js ''--main-color'' \<noteq> PROTO"
    by (simp add: js_eval)
  have c3: "COLON \<notin> set (js '' #fff '')" by (simp add: js_eval)
  have v3: "trim (js '' #fff '') = js ''#fff''" by (simp add: js_eval)
  have h4: "js ''background-image: url(http://x)'' =
        js ''background-image'' @ COLON # js '' url(http://x)'' \<and>
      COLON \<notin> set (js ''background-image'') \<and> js ''background-image'' \<noteq> [] \<and>
      js ''backgroundImage'' = (if startsWith (trim (js ''background-image'')) [HYPHEN, HYPHEN]
         then trim (js ''background-image'') else toCamelCase (trim (js ''background-image''))) \<and>
      js ''backgroundImage'' \<noteq> PROTO"
    by (simp add: js_eval)
  have a: "is_a_to_z 0x74" by (simp add: js_eval)
  have b: "\<not> has_hyphen_letter (js ''color'')" by (simp add: js_eval)
  have e1: "js ''margin'' @ HYPHEN # 0x74 # js ''op'' = js ''margin-top''" by (simp add: js_eval)
  have e2: "toCamelCase (js ''margin'') @ (0x74 - 0x20) # toCamelCase (js ''op'') = js ''marginTop''"
    by (simp add: js_eval)
  from T1 h1 obtain val where
    val: "COLON \<notin> set (js '' 2px'') \<longrightarrow> val = trim (js '' 2px'')"
    and st: "style_element Map.empty (js '' margin-top : 2px'') = Inr [js ''marginTop'' \<mapsto> val]"
    and rs: "split SEMICOLON (trim (js ''color: red; margin-top : 2px'')) =
          [js ''color: red''] @ js '' margin-top : 2px'' # [] \<and>
          list_all (\<lambda>e. map_option fst (element_entry e) \<noteq> Some (js ''marginTop'')) [] \<longrightarrow>
          (\<exists>c m c'. parseStyle_calls [] [js ''a: b''] = Inr c \<and>
             parseStyle c (js ''color: red; margin-top : 2px'') = Inr (m, c') \<and>
             m (js ''marginTop'') = Some val)"
    by blast
  from val c1 v1 have val2: "val = js ''2px''" by simp
  from st have r1: "style_element Map.empty (js '' margin-top : 2px'') =
      Inr [js ''marginTop'' \<mapsto> js ''2px'']" unfolding val2 .
  from rs h2 have r2: "\<exists>c m c'. parseStyle_calls [] [js ''a: b''] = Inr c \<and>
      parseStyle c (js ''color: red; margin-top : 2px'') = Inr (m, c') \<and>
      m (js ''marginTop'') = Some (js ''2px'')" unfolding val2 by blast
  from T2 h3 obtain w where
    "COLON \<notin> set (js '' #fff '') \<longrightarrow> w = trim (js '' #fff '')"
    "style_element Map.empty (js ''--main-color: #fff '') = Inr [js ''--main-color'' \<mapsto> w]"
    by blast
  with c3 v3 have r3: "style_element Map.empty (js ''--main-color: #fff '') =
      Inr [js ''--main-color'' \<mapsto> js ''#fff'']" by simp
  from T3 h4 have r4: "\<exists>val. style_element Map.empty (js ''background-image: url(http://x)'') =
      Inr [js ''backgroundImage'' \<mapsto> val]" by blast
  from T1 a have "toCamelCase (js ''margin'' @ HYPHEN # 0x74 # js ''op'') =
      toCamelCase (js ''margin'') @ (0x74 - 0x20) # toCamelCase (js ''op'')" by blast
  then have r5: "toCamelCase (js ''margin-top'') = js ''marginTop''" unfolding e1 e2 .
  from T1 b have r6: "toCamelCase (js ''color'') = js ''color''" by blast
  from r1 r2 r3 r4 r5 r6 show ?thesis by blast
qed

text \<open>
  Claim C5 as stated fails for the name \<open>__proto__\<close>: the declaration
  \<open>__proto__: x\<close> has a non-empty property part and a colon, its name is not changed
  by trimming or by \<open>toCamelCase\<close>, and nothing is stored: the loop body leaves the
  object as it was and the result is the empty map.
\<close>

theorem proto_declaration_counterexample:
  "js ''__proto__: x'' = js ''__proto__'' @ COLON # js '' x'' \<and>
   COLON \<notin> set (js ''__proto__'') \<and> COLON \<notin> set (js '' x'') \<and> js ''__proto__'' \<noteq> [] \<and>
   toCamelCase (trim (js ''__proto__'')) = js ''__proto__'' \<and>
   style_element Map.empty (js ''__proto__: x'') = Inr Map.empty \<and>
   parseStyle [] (js ''__proto__: x'') = Inr (Map.empty, [(js ''__proto__: x'', Map.empty)])"
  by (simp add: parseStyle_def style_element_def Let_def Map_first_key_def
      MAX_STYLE_CACHE_ENTRIES_def js_eval)

text \<open>
  Claim C6. For an input that is empty or holds white space only, \<open>parseStyle\<close>
  returns the empty map (and leaves the cache as it is).
\<close>

theorem parseStyle_blank_input:
  "list_all isWhiteSpace s \<Longrightarrow>
   \<exists>c. parseStyle_calls [] styles = Inr c \<and> parseStyle c s = Inr (Map.empty, c)"
proof -
  assume "list_all isWhiteSpace s"
  then have t: "trim s = []" by (rule trim_blank)
  from parseStyle_calls_sound[OF cache_sound_Nil, of styles] obtain c where
    "parseStyle_calls [] styles = Inr c" by blast
  then show ?thesis using parseStyle_blank[OF t] by blast
qed

theorem parseStyle_blank_input_witness:
  "list_all isWhiteSpace (js ''   '') \<and> list_all isWhiteSpace [] \<and>
   list_all isWhiteSpace [0x20, 0x9, 0xA, 0xD, 0xA0, 0xFEFF] \<and>
   (\<exists>c. parseStyle_calls [] [js ''color: red''] = Inr c \<and>
      parseStyle c (js ''   '') = Inr (Map.empty, c) \<and>
      parseStyle c [] = Inr (Map.empty, c) \<and>
      parseStyle c [0x20, 0x9, 0xA, 0xD, 0xA0, 0xFEFF] = Inr (Map.empty, c))"
proof -
  have a: "list_all isWhiteSpace (js ''   '')" by (simp add: js_eval)
  have b: "list_all isWhiteSpace []" by simp
  have d: "list_all isWhiteSpace [0x20, 0x9, 0xA, 0xD, 0xA0, 0xFEFF]" by (simp add: js_eval)
  from parseStyle_blank_input[OF a, of "[js ''color: red'']"]
       parseStyle_blank_input[OF b, of "[js ''color: red'']"]
       parseStyle_blank_input[OF d, of "[js ''color: red'']"]
  have "\<exists>c. parseStyle_calls [] [js ''color: red''] = Inr c \<and>
      parseStyle c (js ''   '') = Inr (Map.empty, c) \<and>
      parseStyle c [] = Inr (Map.empty, c) \<and>
      parseStyle c [0x20, 0x9, 0xA, 0xD, 0xA0, 0xFEFF] = Inr (Map.empty, c)"
    by auto
  with a b d show ?thesis by blast
qed




text \<open>
  Claim C8. \<open>parseStyle("color: red; --x: 1; margin-top : 2px")\<close> is exactly the map
  \<open>{color: "red", "--x": "1", marginTop: "2px"}\<close>, after any calls before it.
\<close>

theorem parseStyle_documented_example:
  "\<exists>c c'. parseStyle_calls [] styles = Inr c \<and>
     parseStyle c (js ''color: red; --x: 1; margin-top : 2px'') =
       Inr ([js ''color'' \<mapsto> js ''red'', js ''--x'' \<mapsto> js ''1'', js ''marginTop'' \<mapsto> js ''2px''], c')"
proof -
  have "foldl element_assign Map.empty
          (split SEMICOLON (trim (js ''color: red; --x: 1; margin-top : 2px''))) =
        [js ''color'' \<mapsto> js ''red'', js ''--x'' \<mapsto> js ''1'', js ''marginTop'' \<mapsto> js ''2px'']"
    by (simp add: js_eval)
  then show ?thesis
    using parseStyle_after_calls[of styles "js ''color: red; --x: 1; margin-top : 2px''"] by auto
qed

text \<open>
  Claim C9, amended. When a declaration of the input produces a name other than
  \<open>__proto__\<close> and an earlier declaration produces the same name, the result holds
  the value of the last declaration that produces the name; the earlier values are
  overwritten.
\<close>

theorem last_declaration_wins:
  "split SEMICOLON (trim s) = before @ el1 # between @ el2 # after \<Longrightarrow>
   map_option fst (element_entry el1) = Some name \<Longrightarrow>
   element_entry el2 = Some (name, v2) \<Longrightarrow>
   name \<noteq> PROTO \<Longrightarrow>
   list_all (\<lambda>e. map_option fst (element_entry e) \<noteq> Some name) after \<Longrightarrow>
   \<exists>c m c'. parseStyle_calls [] styles = Inr c \<and> parseStyle c s = Inr (m, c') \<and>
     m name = Some v2"
proof -
  assume sp: "split SEMICOLON (trim s) = before @ el1 # between @ el2 # after"
    and e: "element_entry el2 = Some (name, v2)"
    and np: "name \<noteq> PROTO"
    and af: "list_all (\<lambda>e. map_option fst (element_entry e) \<noteq> Some name) after"
  have sp': "split SEMICOLON (trim s) = (before @ el1 # between) @ el2 # after"
    using sp by simp
  show ?thesis using sp' e np af by (rule parseStyle_after_calls_last)
qed

theorem last_declaration_wins_witness:
  "map_option fst (element_entry (js ''color: red'')) = Some (js ''color'') \<and>
   element_entry (js '' color: blue'') = Some (js ''color'', js ''blue'') \<and>
   (\<exists>c m c'. parseStyle_calls [] [js ''color: red''] = Inr c \<and>
      parseStyle c (js ''color: red; margin: 0; color: blue'') = Inr (m, c') \<and>
      m (js ''color'') = Some (js ''blue''))"
proof -
  have 1: "split SEMICOLON (trim (js ''color: red; margin: 0; color: blue'')) =
      [] @ js ''color: red'' # [js '' margin: 0''] @ js '' color: blue'' # []"
    by (simp add: js_eval)
  have 2: "map_option fst (element_entry (js ''color: red'')) = Some (js ''color'')"
    by (simp add: js_eval)
  have 3: "element_entry (js '' color: blue'') = Some (js ''color'', js ''blue'')"
    by (simp add: js_eval)
  have 4: "js ''color'' \<noteq> PROTO" by (simp add: js_eval)
  have 5: "list_all (\<lambda>e. map_option fst (element_entry e) \<noteq> Some (js ''color'')) []" by simp
  from last_declaration_wins[OF 1 2 3 4 5, of "[js ''color: red'']"] 2 3
  show ?thesis by blast
qed

text \<open>
  Claim C9 as stated fails for the name \<open>__proto__\<close>: both declarations of
  \<open>__proto__: a; __proto__: b\<close> produce that name, and the result holds no value
  for it, neither the last nor the first.
\<close>

theorem proto_twice_counterexample:
  "map (\<lambda>el. map_option fst (element_entry el))
       (split SEMICOLON (trim (js ''__proto__: a; __proto__: b''))) = [Some PROTO, Some PROTO] \<and>
   parseStyle [] (js ''__proto__: a; __proto__: b'') =
     Inr (Map.empty, [(js ''__proto__: a; __proto__: b'', Map.empty)])"
  by (simp add: parseStyle_def style_element_def Let_def Map_first_key_def
      MAX_STYLE_CACHE_ENTRIES_def js_eval)

text \<open>
  Claim C10, amended. A declaration with a non-empty property part, a colon and
  nothing or white space only behind the colon, whose name is not \<open>__proto__\<close>, is
  not skipped: the loop body stores the empty string under its name, and the result
  holds the empty string there unless a later declaration stores the same name. A
  declaration that starts with its colon (an empty property part) is skipped: the loop
  body leaves the map as it was and the result is the one of the input without it.
\<close>

theorem blank_value_kept_empty_property_skipped:
  "(split SEMICOLON (trim s) = before @ el # after \<and> el = p @ COLON # v \<and> COLON \<notin> set p \<and>
    p \<noteq> [] \<and> list_all isWhiteSpace v \<and> property_name p \<noteq> PROTO \<and>
    list_all (\<lambda>e. map_option fst (element_entry e) \<noteq> Some (property_name p)) after \<longrightarrow>
      style_element styleProps el = Inr (styleProps(property_name p \<mapsto> [])) \<and>
      (\<exists>c m c'. parseStyle_calls [] styles = Inr c \<and> parseStyle c s = Inr (m, c') \<and>
         m (property_name p) = Some [])) \<and>
   (split SEMICOLON (trim s) = before @ el # after \<and> el = COLON # rest \<longrightarrow>
      style_element styleProps el = Inr styleProps \<and>
      (\<exists>c m c'. parseStyle_calls [] styles = Inr c \<and> parseStyle c s = Inr (m, c') \<and>
         style_elements Map.empty (before @ after) = Inr m))"
proof (intro conjI impI)
  assume h: "split SEMICOLON (trim s) = before @ el # after \<and> el = p @ COLON # v \<and> COLON \<notin> set p \<and>
    p \<noteq> [] \<and> list_all isWhiteSpace v \<and> property_name p \<noteq> PROTO \<and>
    list_all (\<lambda>e. map_option fst (element_entry e) \<noteq> Some (property_name p)) after"
  then have ws: "list_all isWhiteSpace v" by blast
  have "\<not> isWhiteSpace COLON" by (simp add: isWhiteSpace_def COLON_def)
  then have cv: "COLON \<notin> set v" using ws by (auto simp: list_all_iff)
  have tv: "trim v = []" using ws by (rule trim_blank)
  have e: "element_entry el = Some (property_name p, [])"
    using h cv tv by (simp add: element_entry_one_colon)
  from h have np: "property_name p \<noteq> PROTO" by blast
  have "element_assign styleProps el = object_set styleProps (property_name p) []"
    by (simp add: element_assign_def e)
  also have "\<dots> = styleProps(property_name p \<mapsto> [])" using np by (simp add: object_set_def)
  finally show "style_element styleProps el = Inr (styleProps(property_name p \<mapsto> []))"
    by (simp add: style_element_assign)
  show "\<exists>c m c'. parseStyle_calls [] styles = Inr c \<and> parseStyle c s = Inr (m, c') \<and>
         m (property_name p) = Some []"
    using parseStyle_after_calls_last[of s before el after "property_name p" "[]" styles] e h
    by blast
next
  assume h: "split SEMICOLON (trim s) = before @ el # after \<and> el = COLON # rest"
  then have e: "element_entry el = None" by (simp add: element_entry_None_iff)
  then show "style_element styleProps el = Inr styleProps"
    by (simp add: style_element_assign element_assign_def)
  show "\<exists>c m c'. parseStyle_calls [] styles = Inr c \<and> parseStyle c s = Inr (m, c') \<and>
         style_elements Map.empty (before @ after) = Inr m"
    using parseStyle_after_calls_skip[of s before el after styles] e h by blast
qed

theorem blank_value_kept_empty_property_skipped_witness:
  "style_element Map.empty (js ''color:   '') = Inr [js ''color'' \<mapsto> []] \<and>
   style_element [js ''color'' \<mapsto> []] (js '': red'') = Inr [js ''color'' \<mapsto> []] \<and>
   (\<exists>c c'. parseStyle_calls [] [js ''a: b''] = Inr c \<and>
      parseStyle c (js ''color:   ;: red'') = Inr ([js ''color'' \<mapsto> []], c'))"
proof -
  note T1 = blank_value_kept_empty_property_skipped[where s = "js ''color:   ;: red''"
      and before = "[]" and el = "js ''color:   ''" and after = "[js '': red'']"
      and p = "js ''color''" and v = "js ''   ''" and styleProps = Map.empty
      and styles = "[js ''a: b'']", THEN conjunct1]
  note T2 = blank_value_kept_empty_property_skipped[where s = "js ''color:   ;: red''"
      and before = "[js ''color:   '']" and el = "js '': red''" and after = "[]"
      and rest = "js '' red''" and styleProps = "[js ''color'' \<mapsto> []]"
      and styles = "[js ''a: b'']", THEN conjunct2]
  have h1: "split SEMICOLON (trim (js ''color:   ;: red'')) = [] @ js ''color:   '' # [js '': red''] \<and>
      js ''color:   '' = js ''color'' @ COLON # js ''   '' \<and> COLON \<notin> set (js ''color'') \<and>
      js ''color'' \<noteq> [] \<and> list_all isWhiteSpace (js ''   '') \<and> property_name (js ''color'') \<noteq> PROTO \<and>
      list_all (\<lambda>e. map_option fst (element_entry e) \<noteq> Some (property_name (js ''color'')))
        [js '': red'']"
    by (simp add: js_eval)
  have h2: "split SEMICOLON (trim (js ''color:   ;: red'')) = [js ''color:   ''] @ js '': red'' # [] \<and>
      js '': red'' = COLON # js '' red''"
    by (simp add: js_eval)
  have n: "property_name (js ''color'') = js ''color''" by (simp add: js_eval)
  have ev: "style_elements Map.empty ([js ''color:   ''] @ []) = Inr [js ''color'' \<mapsto> []]"
    by (simp add: style_elements_foldl js_eval)
  from T1 h1 have a: "style_element Map.empty (js ''color:   '') = Inr [js ''color'' \<mapsto> []]"
    unfolding n by blast
  from T2 h2 have b: "style_element [js ''color'' \<mapsto> []] (js '': red'') = Inr [js ''color'' \<mapsto> []]"
    and "\<exists>c m c'. parseStyle_calls [] [js ''a: b''] = Inr c \<and>
       parseStyle c (js ''color:   ;: red'') = Inr (m, c') \<and>
       style_elements Map.empty ([js ''color:   ''] @ []) = Inr m"
    by blast+
  then have "\<exists>c c'. parseStyle_calls [] [js ''a: b''] = Inr c \<and>
      parseStyle c (js ''color:   ;: red'') = Inr ([js ''color'' \<mapsto> []], c')"
    unfolding ev by auto
  with a b show ?thesis by blast
qed

text \<open>
  Claim C10 as stated fails for the name \<open>__proto__\<close>: the declaration
  \<open>__proto__:\<close> has a colon and an empty value part, and it is not retained: the
  result is the empty map.
\<close>

theorem proto_blank_value_counterexample:
  "js ''__proto__:'' = js ''__proto__'' @ COLON # [] \<and> COLON \<notin> set (js ''__proto__'') \<and>
   js ''__proto__'' \<noteq> [] \<and> property_name (js ''__proto__'') = js ''__proto__'' \<and>
   parseStyle [] (js ''__proto__:'') = Inr (Map.empty, [(js ''__proto__:'', Map.empty)])"
  by (simp add: parseStyle_def style_element_def Let_def Map_first_key_def
      MAX_STYLE_CACHE_ENTRIES_def js_eval)

end
